theory Spec2Isabelle
  imports Main "HOL-Library.Word" "HOL-Library.Sublist"
begin

section \<open>Solidity values, the call environment and failure\<close>

text \<open>
  The three contracts of \<^verbatim>\<open>src/smart_contracts\<close> are embedded function by function.
  An \<^verbatim>\<open>address\<close> is a 160-bit word and \<^verbatim>\<open>address(0)\<close> is the word 0; a
  \<^verbatim>\<open>uint256\<close> value supplied by a caller (a date, a timestamp, a bound) is a 256-bit
  word, compared unsigned. Array lengths, array indices and loop counters are natural
  numbers: the only arithmetic on them is \<^verbatim>\<open>i++\<close>, \<^verbatim>\<open>count++\<close> below a length or a
  bound, and \<^verbatim>\<open>length - 1\<close> right after a push.

  A Solidity \<^verbatim>\<open>mapping\<close> is total: a key never written reads as the zero value of the
  value type, and \<^verbatim>\<open>delete\<close> writes that zero value back. Mappings are therefore HOL
  functions, and the \<^verbatim>\<open>exists\<close> flag of the source's structs is kept as a field.
\<close>

type_synonym address = "160 word"
type_synonym uint256 = "256 word"

text \<open>
  A failed \<^verbatim>\<open>require(c, msg)\<close> reverts with \<^verbatim>\<open>msg\<close>; an array read out of bounds
  panics. Both abort the call and roll the storage back.
\<close>

datatype error = Revert string | Panic

record env =
  msg_sender :: address
  block_timestamp :: uint256

text \<open>
  A state-changing function returns either the error or the new storage with the events
  it emitted. \<open>commit\<close> is the storage a call leaves behind: the old one when it
  reverted.
\<close>

definition commit :: "'s \<Rightarrow> error + ('s \<times> 'ev list) \<Rightarrow> 's" where
  "commit s r = (case r of Inl _ \<Rightarrow> s | Inr (s', _) \<Rightarrow> s')"

definition failed :: "error + 'a \<Rightarrow> bool" where
  "failed r = (case r of Inl _ \<Rightarrow> True | Inr _ \<Rightarrow> False)"

section \<open>ConsentContract\<close>

record Consent =
  exists :: bool
  accessLevel :: string
  startDate :: uint256
  endDate :: uint256
  purpose :: string

text \<open>The zero value of the struct: what an unwritten or deleted mapping slot holds.\<close>

definition Consent_zero :: Consent where
  "Consent_zero =
     \<lparr>Consent.exists = False, accessLevel = [], startDate = 0, endDate = 0, purpose = []\<rparr>"

record ConsentContract =
  consents :: "address \<Rightarrow> address \<Rightarrow> Consent"

definition ConsentContract_init :: ConsentContract where
  "ConsentContract_init = \<lparr>consents = (\<lambda>_ _. Consent_zero)\<rparr>"

datatype consent_event =
  ConsentGranted address address string uint256 uint256 string
| ConsentRevoked address address

definition grantConsent ::
  "env \<Rightarrow> address \<Rightarrow> string \<Rightarrow> uint256 \<Rightarrow> uint256 \<Rightarrow> string \<Rightarrow> ConsentContract
     \<Rightarrow> error + (ConsentContract \<times> consent_event list)" where
  "grantConsent e provider accessLevel' startDate' endDate' purpose' s =
     (if \<not> provider \<noteq> 0 then Inl (Revert ''Invalid provider address'')
      else if \<not> startDate' < endDate' then Inl (Revert ''End date must be after start date'')
      else if \<not> endDate' > block_timestamp e then Inl (Revert ''End date must be in the future'')
      else Inr
        (s\<lparr>consents := (consents s)(msg_sender e := (consents s (msg_sender e))(provider :=
              \<lparr>Consent.exists = True, accessLevel = accessLevel', startDate = startDate',
               endDate = endDate', purpose = purpose'\<rparr>))\<rparr>,
         [ConsentGranted (msg_sender e) provider accessLevel' startDate' endDate' purpose']))"

definition revokeConsent ::
  "env \<Rightarrow> address \<Rightarrow> ConsentContract \<Rightarrow> error + (ConsentContract \<times> consent_event list)" where
  "revokeConsent e provider s =
     (if \<not> provider \<noteq> 0 then Inl (Revert ''Invalid provider address'')
      else if \<not> Consent.exists (consents s (msg_sender e) provider)
        then Inl (Revert ''Consent does not exist'')
      else Inr
        (s\<lparr>consents := (consents s)(msg_sender e :=
              (consents s (msg_sender e))(provider := Consent_zero))\<rparr>,
         [ConsentRevoked (msg_sender e) provider]))"

text \<open>The two views read the storage and the block time; they have no failing statement.\<close>

definition checkConsent ::
  "env \<Rightarrow> address \<Rightarrow> address \<Rightarrow> ConsentContract
     \<Rightarrow> bool \<times> string \<times> uint256 \<times> uint256 \<times> string" where
  "checkConsent e patient' provider s =
     (let consent = consents s patient' provider in
        (Consent.exists consent \<and> block_timestamp e \<ge> startDate consent
           \<and> block_timestamp e \<le> endDate consent,
         accessLevel consent, startDate consent, endDate consent, purpose consent))"

definition hasValidConsent :: "env \<Rightarrow> address \<Rightarrow> address \<Rightarrow> ConsentContract \<Rightarrow> bool" where
  "hasValidConsent e patient' provider s =
     (let consent = consents s patient' provider in
        (Consent.exists consent \<and> block_timestamp e \<ge> startDate consent
           \<and> block_timestamp e \<le> endDate consent))"

text \<open>
  The storages a deployed ConsentContract can be in: the freshly deployed one, and every
  storage a successful \<open>grantConsent\<close> or \<open>revokeConsent\<close> leaves.
\<close>

inductive consent_reachable :: "ConsentContract \<Rightarrow> bool" where
  cr_init: "consent_reachable ConsentContract_init"
| cr_grant: "consent_reachable s \<Longrightarrow>
     grantConsent e provider accessLevel' startDate' endDate' purpose' s = Inr (s', evs) \<Longrightarrow>
     consent_reachable s'"
| cr_revoke: "consent_reachable s \<Longrightarrow> revokeConsent e provider s = Inr (s', evs) \<Longrightarrow>
     consent_reachable s'"

text \<open>
  The scenario of the specification, used to instantiate the theorems below: on day 10
  Alice (address 1) grants DrBob (address 2) full access from day 10 to day 40, for a
  checkup.
\<close>

definition consent_scenario :: ConsentContract where
  "consent_scenario =
     commit ConsentContract_init
       (grantConsent \<lparr>msg_sender = 1, block_timestamp = 10\<rparr> 2 ''full'' 10 40 ''checkup''
          ConsentContract_init)"

section \<open>DataHashContract\<close>

record DataHashRecord =
  dataHash :: string
  timestamp :: uint256
  dataType :: string
  owner :: address
  exists :: bool

definition DataHashRecord_zero :: DataHashRecord where
  "DataHashRecord_zero =
     \<lparr>dataHash = [], DataHashRecord.timestamp = 0, dataType = [], owner = 0,
      DataHashRecord.exists = False\<rparr>"

record DataHashContract =
  dataHashes :: "string \<Rightarrow> DataHashRecord"
  ownerDataIds :: "address \<Rightarrow> string list"

definition DataHashContract_init :: DataHashContract where
  "DataHashContract_init =
     \<lparr>dataHashes = (\<lambda>_. DataHashRecord_zero), ownerDataIds = (\<lambda>_. [])\<rparr>"

text \<open>
  Event arguments in the source's order: \<open>DataHashStored dataId dataHash dataType
  timestamp owner\<close> and \<open>DataHashUpdated dataId oldHash newHash timestamp owner\<close>.
\<close>

datatype datahash_event =
  DataHashStored string string string uint256 address
| DataHashUpdated string string string uint256 address

text \<open>
  The update branch is the source's three field assignments, one after the other, on the
  stored struct; the creation branch overwrites the whole slot and pushes the id.
\<close>

definition storeDataHash ::
  "env \<Rightarrow> string \<Rightarrow> string \<Rightarrow> string \<Rightarrow> uint256 \<Rightarrow> DataHashContract
     \<Rightarrow> error + (DataHashContract \<times> datahash_event list)" where
  "storeDataHash e dataId dataHash' dataType' timestamp' s =
     (if \<not> length dataId > 0 then Inl (Revert ''Data ID cannot be empty'')
      else if \<not> length dataHash' > 0 then Inl (Revert ''Data hash cannot be empty'')
      else if \<not> length dataType' > 0 then Inl (Revert ''Data type cannot be empty'')
      else if DataHashRecord.exists (dataHashes s dataId) then
        (let oldHash = dataHash (dataHashes s dataId);
             s1 = s\<lparr>dataHashes := (dataHashes s)(dataId :=
                     (dataHashes s dataId)\<lparr>dataHash := dataHash'\<rparr>)\<rparr>;
             s2 = s1\<lparr>dataHashes := (dataHashes s1)(dataId :=
                     (dataHashes s1 dataId)\<lparr>DataHashRecord.timestamp := timestamp'\<rparr>)\<rparr>;
             s3 = s2\<lparr>dataHashes := (dataHashes s2)(dataId :=
                     (dataHashes s2 dataId)\<lparr>dataType := dataType'\<rparr>)\<rparr>
         in Inr (s3, [DataHashUpdated dataId oldHash dataHash' timestamp' (msg_sender e)]))
      else
        (let s1 = s\<lparr>dataHashes := (dataHashes s)(dataId :=
                     \<lparr>dataHash = dataHash', DataHashRecord.timestamp = timestamp',
                      dataType = dataType', owner = msg_sender e,
                      DataHashRecord.exists = True\<rparr>)\<rparr>;
             s2 = s1\<lparr>ownerDataIds := (ownerDataIds s1)(msg_sender e :=
                     ownerDataIds s1 (msg_sender e) @ [dataId])\<rparr>
         in Inr (s2, [DataHashStored dataId dataHash' dataType' timestamp' (msg_sender e)])))"

text \<open>
  \<^verbatim>\<open>keccak256\<close> is a primitive of the platform, not code of the repository: the
  functions that call it take it as the parameter \<open>keccak256\<close>, from byte strings to
  32-byte values.
\<close>

definition verifyDataHash ::
  "(string \<Rightarrow> uint256) \<Rightarrow> string \<Rightarrow> string \<Rightarrow> DataHashContract
     \<Rightarrow> bool \<times> string \<times> uint256 \<times> string" where
  "verifyDataHash keccak256 dataId dataHash' s =
     (let record = dataHashes s dataId in
        if \<not> DataHashRecord.exists record then (False, [], 0, [])
        else
          (let isValid = (keccak256 (dataHash record) = keccak256 dataHash')
           in (isValid, dataHash record, DataHashRecord.timestamp record, dataType record)))"

definition getDataHashCount :: "address \<Rightarrow> DataHashContract \<Rightarrow> nat" where
  "getDataHashCount owner' s = length (ownerDataIds s owner')"

definition getDataId :: "address \<Rightarrow> nat \<Rightarrow> DataHashContract \<Rightarrow> error + string" where
  "getDataId owner' index s =
     (if \<not> index < length (ownerDataIds s owner') then Inl (Revert ''Index out of bounds'')
      else Inr (ownerDataIds s owner' ! index))"

definition getDataHashDetails ::
  "string \<Rightarrow> DataHashContract \<Rightarrow> string \<times> uint256 \<times> string \<times> address \<times> bool" where
  "getDataHashDetails dataId s =
     (let record = dataHashes s dataId in
        (dataHash record, DataHashRecord.timestamp record, dataType record, owner record,
         DataHashRecord.exists record))"

definition dataHashExists :: "string \<Rightarrow> DataHashContract \<Rightarrow> bool" where
  "dataHashExists dataId s = DataHashRecord.exists (dataHashes s dataId)"

text \<open>\<open>storeDataHash\<close> is the only function of the contract that writes.\<close>

inductive datahash_reachable :: "DataHashContract \<Rightarrow> bool" where
  dr_init: "datahash_reachable DataHashContract_init"
| dr_store: "datahash_reachable s \<Longrightarrow>
     storeDataHash e dataId dataHash' dataType' timestamp' s = Inr (s', evs) \<Longrightarrow>
     datahash_reachable s'"

text \<open>
  The scenario of the specification, used to instantiate the theorems below: account 1
  registers \<^verbatim>\<open>rec-1\<close> with digest \<^verbatim>\<open>abc123\<close>, type \<^verbatim>\<open>lab_result\<close> and
  timestamp 100.
\<close>

definition datahash_scenario :: DataHashContract where
  "datahash_scenario =
     commit DataHashContract_init
       (storeDataHash \<lparr>msg_sender = 1, block_timestamp = 100\<rparr> ''rec-1'' ''abc123''
          ''lab_result'' 100 DataHashContract_init)"

text \<open>
  A concrete function to put in the place of \<open>keccak256\<close> when a theorem is evaluated
  at a concrete input: it reads the bytes as the digits of a number, which tells apart the
  digests of the scenario.
\<close>

definition positional_digest :: "string \<Rightarrow> uint256" where
  "positional_digest d = foldl (\<lambda>h c. h * 257 + of_char c + 1) 0 d"

section \<open>AuditContract\<close>

record AccessLog =
  patient :: address
  accessor :: address
  resourceId :: string
  accessType :: string
  timestamp :: uint256

text \<open>
  The storage is the array of all logs and, per patient, the array of the positions of
  that patient's logs in it. There is no other state variable.
\<close>

record AuditContract =
  accessLogs :: "AccessLog list"
  patientAccessLogs :: "address \<Rightarrow> nat list"

definition AuditContract_init :: AuditContract where
  "AuditContract_init = \<lparr>accessLogs = [], patientAccessLogs = (\<lambda>_. [])\<rparr>"

datatype audit_event = AccessLogged address address string string uint256

definition logAccess ::
  "address \<Rightarrow> address \<Rightarrow> string \<Rightarrow> string \<Rightarrow> uint256 \<Rightarrow> AuditContract
     \<Rightarrow> error + (AuditContract \<times> audit_event list)" where
  "logAccess patient' accessor' resourceId' accessType' timestamp' s =
     (if \<not> patient' \<noteq> 0 then Inl (Revert ''Invalid patient address'')
      else if \<not> accessor' \<noteq> 0 then Inl (Revert ''Invalid accessor address'')
      else if \<not> length resourceId' > 0 then Inl (Revert ''Resource ID cannot be empty'')
      else if \<not> length accessType' > 0 then Inl (Revert ''Access type cannot be empty'')
      else
        (let log = \<lparr>patient = patient', accessor = accessor', resourceId = resourceId',
                    accessType = accessType', AccessLog.timestamp = timestamp'\<rparr>;
             s1 = s\<lparr>accessLogs := accessLogs s @ [log]\<rparr>;
             logIndex = length (accessLogs s1) - 1;
             s2 = s1\<lparr>patientAccessLogs := (patientAccessLogs s1)(patient' :=
                     patientAccessLogs s1 patient' @ [logIndex])\<rparr>
         in Inr (s2, [AccessLogged patient' accessor' resourceId' accessType' timestamp'])))"

definition getAccessLogCount :: "address \<Rightarrow> AuditContract \<Rightarrow> nat" where
  "getAccessLogCount patient' s = length (patientAccessLogs s patient')"

text \<open>A checked array read: Solidity panics on an index at or beyond the length.\<close>

definition read_at :: "'a list \<Rightarrow> nat \<Rightarrow> error + 'a" where
  "read_at xs i = (if i < length xs then Inr (xs ! i) else Inl Panic)"

definition getAccessLog ::
  "address \<Rightarrow> nat \<Rightarrow> AuditContract \<Rightarrow> error + (address \<times> address \<times> string \<times> string \<times> uint256)" where
  "getAccessLog patient' index s =
     (if \<not> index < length (patientAccessLogs s patient') then Inl (Revert ''Index out of bounds'')
      else
        (let logIndex = patientAccessLogs s patient' ! index in
           case read_at (accessLogs s) logIndex of
             Inl err \<Rightarrow> Inl err
           | Inr log \<Rightarrow>
               Inr (patient log, accessor log, resourceId log, accessType log,
                    AccessLog.timestamp log)))"

text \<open>
  The first loop of \<^verbatim>\<open>getAccessLogsInTimeRange\<close>, from position \<open>i\<close> with \<open>count\<close>
  matches so far: it stops at the end of \<open>patientLogs\<close> or as soon as \<open>count\<close> reaches
  \<open>maxResults\<close>.
\<close>

function timeRange_count ::
  "AccessLog list \<Rightarrow> nat list \<Rightarrow> uint256 \<Rightarrow> uint256 \<Rightarrow> nat \<Rightarrow> nat \<Rightarrow> nat \<Rightarrow> error + nat" where
  "timeRange_count logs patientLogs startTime endTime maxResults i count =
     (if i < length patientLogs \<and> count < maxResults then
        (case read_at logs (patientLogs ! i) of
           Inl err \<Rightarrow> Inl err
         | Inr log \<Rightarrow>
             if AccessLog.timestamp log \<ge> startTime \<and> AccessLog.timestamp log \<le> endTime
             then timeRange_count logs patientLogs startTime endTime maxResults (i + 1) (count + 1)
             else timeRange_count logs patientLogs startTime endTime maxResults (i + 1) count)
      else Inr count)"
  by pat_completeness auto
termination
  by (relation "measure (\<lambda>(logs, patientLogs, startTime, endTime, maxResults, i, count).
        length patientLogs - i)") auto

text \<open>
  The second loop, writing into the result array allocated with the counted length: it
  stops at the end of \<open>patientLogs\<close> or when the array is full.
\<close>

function timeRange_fill ::
  "AccessLog list \<Rightarrow> nat list \<Rightarrow> uint256 \<Rightarrow> uint256 \<Rightarrow> nat \<Rightarrow> nat \<Rightarrow> nat list
     \<Rightarrow> error + nat list" where
  "timeRange_fill logs patientLogs startTime endTime i count result =
     (if i < length patientLogs \<and> count < length result then
        (case read_at logs (patientLogs ! i) of
           Inl err \<Rightarrow> Inl err
         | Inr log \<Rightarrow>
             if AccessLog.timestamp log \<ge> startTime \<and> AccessLog.timestamp log \<le> endTime
             then timeRange_fill logs patientLogs startTime endTime (i + 1) (count + 1)
                    (result[count := patientLogs ! i])
             else timeRange_fill logs patientLogs startTime endTime (i + 1) count result)
      else Inr result)"
  by pat_completeness auto
termination
  by (relation "measure (\<lambda>(logs, patientLogs, startTime, endTime, i, count, result).
        length patientLogs - i)") auto

definition getAccessLogsInTimeRange ::
  "address \<Rightarrow> uint256 \<Rightarrow> uint256 \<Rightarrow> uint256 \<Rightarrow> AuditContract \<Rightarrow> error + nat list" where
  "getAccessLogsInTimeRange patient' startTime endTime maxResults s =
     (if \<not> startTime \<le> endTime then Inl (Revert ''Start time must be before end time'')
      else
        (let patientLogs = patientAccessLogs s patient' in
           case timeRange_count (accessLogs s) patientLogs startTime endTime
                  (unat maxResults) 0 0 of
             Inl err \<Rightarrow> Inl err
           | Inr count \<Rightarrow>
               timeRange_fill (accessLogs s) patientLogs startTime endTime 0 0
                 (replicate count 0)))"

text \<open>The same two loops of \<^verbatim>\<open>getAccessLogsByAccessor\<close>, over the whole log array.\<close>

function accessor_count :: "AccessLog list \<Rightarrow> address \<Rightarrow> nat \<Rightarrow> nat \<Rightarrow> nat \<Rightarrow> nat" where
  "accessor_count logs accessor' maxResults i count =
     (if i < length logs \<and> count < maxResults then
        (if accessor (logs ! i) = accessor'
         then accessor_count logs accessor' maxResults (i + 1) (count + 1)
         else accessor_count logs accessor' maxResults (i + 1) count)
      else count)"
  by pat_completeness auto
termination
  by (relation "measure (\<lambda>(logs, accessor', maxResults, i, count). length logs - i)") auto

function accessor_fill :: "AccessLog list \<Rightarrow> address \<Rightarrow> nat \<Rightarrow> nat \<Rightarrow> nat list \<Rightarrow> nat list" where
  "accessor_fill logs accessor' i count result =
     (if i < length logs \<and> count < length result then
        (if accessor (logs ! i) = accessor'
         then accessor_fill logs accessor' (i + 1) (count + 1) (result[count := i])
         else accessor_fill logs accessor' (i + 1) count result)
      else result)"
  by pat_completeness auto
termination
  by (relation "measure (\<lambda>(logs, accessor', i, count, result). length logs - i)") auto

definition getAccessLogsByAccessor :: "address \<Rightarrow> uint256 \<Rightarrow> AuditContract \<Rightarrow> nat list" where
  "getAccessLogsByAccessor accessor' maxResults s =
     (let count = accessor_count (accessLogs s) accessor' (unat maxResults) 0 0
      in accessor_fill (accessLogs s) accessor' 0 0 (replicate count 0))"

text \<open>
  \<open>logAccess\<close> is the only function of the contract that writes; the other four are
  views. \<open>audit_reaches s s'\<close>: storage \<open>s'\<close> comes from \<open>s\<close> by successful
  \<open>logAccess\<close> calls (a reverted call leaves the storage as it was).
\<close>

inductive audit_reaches :: "AuditContract \<Rightarrow> AuditContract \<Rightarrow> bool" where
  ar_refl: "audit_reaches s s"
| ar_log: "audit_reaches s s' \<Longrightarrow>
     logAccess patient' accessor' resourceId' accessType' timestamp' s' = Inr (s'', evs) \<Longrightarrow>
     audit_reaches s s''"

definition audit_reachable :: "AuditContract \<Rightarrow> bool" where
  "audit_reachable s = audit_reaches AuditContract_init s"

text \<open>
  The single forward pass that the specification allows in place of the two loops: it
  walks the patient's positions in order, keeps those whose log lies in the time range,
  and stops as soon as \<open>maxResults\<close> have been collected.
\<close>

fun single_pass ::
  "AccessLog list \<Rightarrow> uint256 \<Rightarrow> uint256 \<Rightarrow> nat \<Rightarrow> nat list \<Rightarrow> nat list \<Rightarrow> nat list" where
  "single_pass logs startTime endTime maxResults collected [] = collected"
| "single_pass logs startTime endTime maxResults collected (p # ps) =
     (if length collected \<ge> maxResults then collected
      else if AccessLog.timestamp (logs ! p) \<ge> startTime \<and> AccessLog.timestamp (logs ! p) \<le> endTime
      then single_pass logs startTime endTime maxResults (collected @ [p]) ps
      else single_pass logs startTime endTime maxResults collected ps)"

definition in_range :: "AccessLog list \<Rightarrow> uint256 \<Rightarrow> uint256 \<Rightarrow> nat \<Rightarrow> bool" where
  "in_range logs startTime endTime p =
     (AccessLog.timestamp (logs ! p) \<ge> startTime \<and> AccessLog.timestamp (logs ! p) \<le> endTime)"

text \<open>
  A log of three accesses, used to instantiate the theorems below: accessor 2 views
  \<^verbatim>\<open>rec-1\<close> of patient 1 at time 100, accessor 2 views \<^verbatim>\<open>rec-9\<close> of patient 3 at
  time 150, accessor 4 downloads \<^verbatim>\<open>rec-1\<close> of patient 1 at time 200.
\<close>

definition audit_scenario :: AuditContract where
  "audit_scenario =
     commit
       (commit
          (commit AuditContract_init
             (logAccess 1 2 ''rec-1'' ''view'' 100 AuditContract_init))
          (logAccess 3 2 ''rec-9'' ''view'' 150
             (commit AuditContract_init
                (logAccess 1 2 ''rec-1'' ''view'' 100 AuditContract_init))))
       (logAccess 1 4 ''rec-1'' ''download'' 200
          (commit
             (commit AuditContract_init
                (logAccess 1 2 ''rec-1'' ''view'' 100 AuditContract_init))
             (logAccess 3 2 ''rec-9'' ''view'' 150
                (commit AuditContract_init
                   (logAccess 1 2 ''rec-1'' ''view'' 100 AuditContract_init)))))"

section \<open>Properties of the embedding\<close>

subsection \<open>Failure and commit\<close>

lemma failed_simps: "failed (Inl x) = True" "failed (Inr y) = False"
  by (simp_all add: failed_def)

lemma commit_simps: "commit s (Inl x) = s" "commit s (Inr (s', evs)) = s'"
  by (simp_all add: commit_def)

subsection \<open>Invariants of the consent storage\<close>

lemma consent_unset_is_zero:
  "consent_reachable s \<Longrightarrow> \<not> Consent.exists (consents s p q) \<Longrightarrow> consents s p q = Consent_zero"
proof (induction arbitrary: p q rule: consent_reachable.induct)
  case cr_init
  then show ?case by (simp add: ConsentContract_init_def)
next
  case (cr_grant s e provider accessLevel' startDate' endDate' purpose' s' evs)
  then show ?case
    by (auto simp: grantConsent_def split: if_splits)
next
  case (cr_revoke s e provider s' evs)
  then show ?case
    by (auto simp: revokeConsent_def split: if_splits)
qed

lemma consent_window_nonempty:
  "consent_reachable s \<Longrightarrow> Consent.exists (consents s p q) \<Longrightarrow>
     startDate (consents s p q) < endDate (consents s p q)"
proof (induction arbitrary: p q rule: consent_reachable.induct)
  case cr_init
  then show ?case by (simp add: ConsentContract_init_def Consent_zero_def)
next
  case (cr_grant s e provider accessLevel' startDate' endDate' purpose' s' evs)
  then show ?case
    by (auto simp: grantConsent_def split: if_splits)
next
  case (cr_revoke s e provider s' evs)
  then show ?case
    by (auto simp: revokeConsent_def Consent_zero_def split: if_splits)
qed


lemma consent_scenario_grant:
  "grantConsent \<lparr>msg_sender = 1, block_timestamp = 10\<rparr> 2 ''full'' 10 40 ''checkup''
     ConsentContract_init
   = Inr (consent_scenario, [ConsentGranted 1 2 ''full'' 10 40 ''checkup''])"
  by (simp add: consent_scenario_def grantConsent_def commit_simps)

lemma consent_scenario_reachable: "consent_reachable consent_scenario"
  by (rule cr_grant [OF cr_init consent_scenario_grant])

lemma consent_scenario_record:
  "consents consent_scenario 1 2
   = \<lparr>Consent.exists = True, accessLevel = ''full'', startDate = 10, endDate = 40,
      purpose = ''checkup''\<rparr>"
  by (simp add: consent_scenario_def grantConsent_def commit_simps)


subsection \<open>The bounded scans of the audit log\<close>

declare timeRange_count.simps [simp del] timeRange_fill.simps [simp del]
  accessor_count.simps [simp del] accessor_fill.simps [simp del]

lemma read_at_valid: "i < length xs \<Longrightarrow> read_at xs i = Inr (xs ! i)"
  by (simp add: read_at_def)

lemma in_range_filter_drop:
  "i < length pl \<Longrightarrow>
   filter P (drop i pl) = (if P (pl ! i) then pl ! i # filter P (drop (Suc i) pl)
                           else filter P (drop (Suc i) pl))"
  by (simp add: Cons_nth_drop_Suc [symmetric])

lemma timeRange_count_char:
  "\<forall>x \<in> set pl. x < length logs \<Longrightarrow> c \<le> m \<Longrightarrow>
   timeRange_count logs pl st et m i c
     = Inr (min m (c + length (filter (in_range logs st et) (drop i pl))))"
proof (induction logs pl st et m i c rule: timeRange_count.induct)
  case (1 logs pl st et m i c)
  show ?case
  proof (cases "i < length pl \<and> c < m")
    case True
    then have rd: "read_at logs (pl ! i) = Inr (logs ! (pl ! i))"
      using "1.prems"(1) by (simp add: read_at_valid)
    show ?thesis
    proof (cases "in_range logs st et (pl ! i)")
      case hit: True
      then have "timeRange_count logs pl st et m i c = timeRange_count logs pl st et m (i + 1) (c + 1)"
        using True rd by (subst timeRange_count.simps) (simp add: in_range_def)
      also have "\<dots> = Inr (min m (c + 1 + length (filter (in_range logs st et) (drop (i + 1) pl))))"
      proof (rule "1.IH"(1) [OF True rd])
        show "st \<le> AccessLog.timestamp (logs ! (pl ! i)) \<and> AccessLog.timestamp (logs ! (pl ! i)) \<le> et"
          using hit by (simp add: in_range_def)
      qed (use True "1.prems" in auto)
      finally show ?thesis
        using True hit by (simp add: in_range_filter_drop)
    next
      case miss: False
      then have "timeRange_count logs pl st et m i c = timeRange_count logs pl st et m (i + 1) c"
        using True rd by (subst timeRange_count.simps) (auto simp add: in_range_def)
      also have "\<dots> = Inr (min m (c + length (filter (in_range logs st et) (drop (i + 1) pl))))"
      proof (rule "1.IH"(2) [OF True rd])
        show "\<not> (st \<le> AccessLog.timestamp (logs ! (pl ! i)) \<and> AccessLog.timestamp (logs ! (pl ! i)) \<le> et)"
          using miss by (simp add: in_range_def)
      qed (use True "1.prems" in auto)
      finally show ?thesis
        using True miss by (simp add: in_range_filter_drop)
    qed
  next
    case False
    then have "timeRange_count logs pl st et m i c = Inr c"
      by (subst timeRange_count.simps) auto
    moreover have "min m (c + length (filter (in_range logs st et) (drop i pl))) = c"
      using False "1.prems"(2) by (cases "i < length pl") auto
    ultimately show ?thesis by simp
  qed
qed


lemma take_Suc_update: "c < length res \<Longrightarrow> take (Suc c) (res[c := x]) = take c res @ [x]"
  by (simp add: take_Suc_conv_app_nth)

lemma timeRange_fill_char:
  "\<forall>x \<in> set pl. x < length logs \<Longrightarrow> c \<le> length res \<Longrightarrow>
   length res \<le> c + length (filter (in_range logs st et) (drop i pl)) \<Longrightarrow>
   timeRange_fill logs pl st et i c res
     = Inr (take c res @ take (length res - c) (filter (in_range logs st et) (drop i pl)))"
proof (induction logs pl st et i c res rule: timeRange_fill.induct)
  case (1 logs pl st et i c res)
  show ?case
  proof (cases "i < length pl \<and> c < length res")
    case True
    then have rd: "read_at logs (pl ! i) = Inr (logs ! (pl ! i))"
      using "1.prems"(1) by (simp add: read_at_valid)
    show ?thesis
    proof (cases "in_range logs st et (pl ! i)")
      case hit: True
      let ?res = "res[c := pl ! i]"
      have "timeRange_fill logs pl st et i c res = timeRange_fill logs pl st et (i + 1) (c + 1) ?res"
        using True rd hit by (subst timeRange_fill.simps) (simp add: in_range_def)
      also have "\<dots> = Inr (take (c + 1) ?res
                   @ take (length ?res - (c + 1)) (filter (in_range logs st et) (drop (i + 1) pl)))"
      proof (rule "1.IH"(1) [OF True rd])
        show "st \<le> AccessLog.timestamp (logs ! (pl ! i)) \<and> AccessLog.timestamp (logs ! (pl ! i)) \<le> et"
          using hit by (simp add: in_range_def)
        show "length ?res \<le> c + 1 + length (filter (in_range logs st et) (drop (i + 1) pl))"
          using "1.prems"(3) True hit by (simp add: in_range_filter_drop)
      qed (use True "1.prems" in auto)
      also have "take (c + 1) ?res = take c res @ [pl ! i]"
        using True by (simp add: take_Suc_update)
      also have "(take c res @ [pl ! i])
                   @ take (length ?res - (c + 1)) (filter (in_range logs st et) (drop (i + 1) pl))
                 = take c res @ take (length res - c) (filter (in_range logs st et) (drop i pl))"
      proof -
        have "length res - c = Suc (length res - (c + 1))"
          using True by arith
        then show ?thesis
          using True hit by (simp add: in_range_filter_drop)
      qed
      finally show ?thesis .
    next
      case miss: False
      have "timeRange_fill logs pl st et i c res = timeRange_fill logs pl st et (i + 1) c res"
        using True rd miss by (subst timeRange_fill.simps) (auto simp add: in_range_def)
      also have "\<dots> = Inr (take c res
                   @ take (length res - c) (filter (in_range logs st et) (drop (i + 1) pl)))"
      proof (rule "1.IH"(2) [OF True rd])
        show "\<not> (st \<le> AccessLog.timestamp (logs ! (pl ! i)) \<and> AccessLog.timestamp (logs ! (pl ! i)) \<le> et)"
          using miss by (simp add: in_range_def)
        show "length res \<le> c + length (filter (in_range logs st et) (drop (i + 1) pl))"
          using "1.prems"(3) True miss by (simp add: in_range_filter_drop)
      qed (use True "1.prems" in auto)
      finally show ?thesis
        using True miss by (simp add: in_range_filter_drop)
    qed
  next
    case False
    then have "timeRange_fill logs pl st et i c res = Inr res"
      by (subst timeRange_fill.simps) auto
    moreover have "c = length res"
      using False "1.prems"(2,3) by (cases "i < length pl") auto
    ultimately show ?thesis by simp
  qed
qed

lemma getAccessLogsInTimeRange_char:
  assumes "\<forall>x \<in> set (patientAccessLogs s p). x < length (accessLogs s)" and "st \<le> et"
  shows "getAccessLogsInTimeRange p st et m s
           = Inr (take (unat m) (filter (in_range (accessLogs s) st et) (patientAccessLogs s p)))"
proof -
  let ?pl = "patientAccessLogs s p"
  let ?hits = "filter (in_range (accessLogs s) st et) ?pl"
  let ?n = "min (unat m) (length ?hits)"
  have cnt: "timeRange_count (accessLogs s) ?pl st et (unat m) 0 0 = Inr ?n"
    using timeRange_count_char [OF assms(1), of 0 "unat m" st et 0] by simp
  have "timeRange_fill (accessLogs s) ?pl st et 0 0 (replicate ?n 0)
          = Inr (take 0 (replicate ?n 0) @ take (length (replicate ?n (0::nat)) - 0)
                   (filter (in_range (accessLogs s) st et) (drop 0 ?pl)))"
    by (rule timeRange_fill_char [OF assms(1)]) simp_all
  then have fill: "timeRange_fill (accessLogs s) ?pl st et 0 0 (replicate ?n 0) = Inr (take ?n ?hits)"
    by simp
  have "take ?n ?hits = take (unat m) ?hits"
    by (simp add: min_def)
  with cnt fill assms(2) show ?thesis
    by (simp add: getAccessLogsInTimeRange_def Let_def)
qed

lemma single_pass_char:
  "length acc \<le> m \<Longrightarrow>
   single_pass logs st et m acc ps = acc @ take (m - length acc) (filter (in_range logs st et) ps)"
proof (induction ps arbitrary: acc)
  case Nil
  then show ?case by simp
next
  case (Cons p ps)
  show ?case
  proof (cases "m \<le> length acc")
    case True
    with Cons.prems show ?thesis by simp
  next
    case False
    then have lt: "length acc < m" by simp
    show ?thesis
    proof (cases "in_range logs st et p")
      case True
      have "m - length acc = Suc (m - length (acc @ [p]))"
        using lt by (simp add: Suc_diff_Suc)
      then show ?thesis
        using True lt Cons.IH [of "acc @ [p]"] by (simp add: in_range_def)
    next
      case False
      then show ?thesis
        using lt Cons.IH [of acc] Cons.prems by (auto simp add: in_range_def)
    qed
  qed
qed


lemma logAccess_Inr:
  assumes "logAccess p a r t ts s = Inr (s', evs)"
  shows "s' = \<lparr>accessLogs = accessLogs s @ [\<lparr>patient = p, accessor = a, resourceId = r,
                  accessType = t, AccessLog.timestamp = ts\<rparr>],
               patientAccessLogs = (patientAccessLogs s)(p :=
                  patientAccessLogs s p @ [length (accessLogs s)])\<rparr>"
    and "evs = [AccessLogged p a r t ts]"
    and "p \<noteq> 0" and "a \<noteq> 0" and "r \<noteq> []" and "t \<noteq> []"
  using assms by (auto simp: logAccess_def Let_def split: if_splits)

lemma audit_reaches_prefix: "audit_reaches s s' \<Longrightarrow> prefix (accessLogs s) (accessLogs s')"
proof (induction rule: audit_reaches.induct)
  case (ar_refl s)
  show ?case by simp
next
  case (ar_log s s' p a r t ts s'' evs)
  from logAccess_Inr(1) [OF ar_log.hyps(2)]
  have "accessLogs s'' = accessLogs s' @ [\<lparr>patient = p, accessor = a, resourceId = r,
          accessType = t, AccessLog.timestamp = ts\<rparr>]"
    by simp
  then have "prefix (accessLogs s') (accessLogs s'')"
    by simp
  with ar_log.IH show ?case
    by (rule prefix_order.trans)
qed

lemma audit_index_inv:
  "audit_reaches s0 s \<Longrightarrow> s0 = AuditContract_init \<Longrightarrow>
   patientAccessLogs s q = filter (\<lambda>i. patient (accessLogs s ! i) = q) [0..<length (accessLogs s)]"
proof (induction arbitrary: q rule: audit_reaches.induct)
  case (ar_refl s)
  then show ?case by (simp add: AuditContract_init_def)
next
  case (ar_log s s' p a r t ts s'' evs)
  let ?log = "\<lparr>patient = p, accessor = a, resourceId = r, accessType = t, AccessLog.timestamp = ts\<rparr>"
  note st = logAccess_Inr(1) [OF ar_log.hyps(2)]
  have old: "filter (\<lambda>i. patient ((accessLogs s' @ [?log]) ! i) = q) [0..<length (accessLogs s')]
               = filter (\<lambda>i. patient (accessLogs s' ! i) = q) [0..<length (accessLogs s')]"
    by (rule filter_cong) (simp_all add: nth_append)
  show ?case
  proof (cases "q = p")
    case True
    then show ?thesis
      using ar_log.IH [OF ar_log.prems, of p] old by (simp add: st)
  next
    case False
    then show ?thesis
      using ar_log.IH [OF ar_log.prems, of q] old by (simp add: st)
  qed
qed

lemma audit_reachable_index:
  "audit_reachable s \<Longrightarrow>
   patientAccessLogs s q = filter (\<lambda>i. patient (accessLogs s ! i) = q) [0..<length (accessLogs s)]"
  unfolding audit_reachable_def by (rule audit_index_inv) simp_all

lemma audit_reachable_valid:
  assumes "audit_reachable s" and "i \<in> set (patientAccessLogs s q)"
  shows "i < length (accessLogs s)" and "patient (accessLogs s ! i) = q"
  using assms(2) unfolding audit_reachable_index [OF assms(1), of q] by simp_all

lemma audit_reachable_sorted:
  assumes "audit_reachable s"
  shows "sorted_wrt (<) (patientAccessLogs s q)"
  unfolding audit_reachable_index [OF assms, of q]
  by (rule sorted_wrt_filter) simp

lemma accessor_filter_upt:
  "i < n \<Longrightarrow> filter P [i..<n] = (if P i then i # filter P [Suc i..<n] else filter P [Suc i..<n])"
  by (simp add: upt_conv_Cons)

lemma accessor_count_char:
  "c \<le> m \<Longrightarrow>
   accessor_count logs a m i c
     = min m (c + length (filter (\<lambda>j. accessor (logs ! j) = a) [i..<length logs]))"
proof (induction logs a m i c rule: accessor_count.induct)
  case (1 logs a m i c)
  show ?case
  proof (cases "i < length logs \<and> c < m")
    case True
    show ?thesis
    proof (cases "accessor (logs ! i) = a")
      case hit: True
      have "accessor_count logs a m i c = accessor_count logs a m (i + 1) (c + 1)"
        using True hit by (subst accessor_count.simps) simp
      also have "\<dots> = min m (c + 1 + length (filter (\<lambda>j. accessor (logs ! j) = a) [i + 1..<length logs]))"
        by (rule "1.IH"(1) [OF True hit]) (use True in simp)
      finally show ?thesis
        using True hit by (simp add: accessor_filter_upt)
    next
      case miss: False
      have "accessor_count logs a m i c = accessor_count logs a m (i + 1) c"
        using True miss by (subst accessor_count.simps) simp
      also have "\<dots> = min m (c + length (filter (\<lambda>j. accessor (logs ! j) = a) [i + 1..<length logs]))"
        by (rule "1.IH"(2) [OF True miss]) (use "1.prems" in simp)
      finally show ?thesis
        using True miss by (simp add: accessor_filter_upt)
    qed
  next
    case False
    then have "accessor_count logs a m i c = c"
      by (subst accessor_count.simps) auto
    moreover have "min m (c + length (filter (\<lambda>j. accessor (logs ! j) = a) [i..<length logs])) = c"
      using False "1.prems" by (cases "i < length logs") auto
    ultimately show ?thesis by simp
  qed
qed

lemma accessor_fill_char:
  "c \<le> length res \<Longrightarrow>
   length res \<le> c + length (filter (\<lambda>j. accessor (logs ! j) = a) [i..<length logs]) \<Longrightarrow>
   accessor_fill logs a i c res
     = take c res @ take (length res - c) (filter (\<lambda>j. accessor (logs ! j) = a) [i..<length logs])"
proof (induction logs a i c res rule: accessor_fill.induct)
  case (1 logs a i c res)
  show ?case
  proof (cases "i < length logs \<and> c < length res")
    case True
    show ?thesis
    proof (cases "accessor (logs ! i) = a")
      case hit: True
      let ?res = "res[c := i]"
      have "accessor_fill logs a i c res = accessor_fill logs a (i + 1) (c + 1) ?res"
        using True hit by (subst accessor_fill.simps) simp
      also have "\<dots> = take (c + 1) ?res
                   @ take (length ?res - (c + 1)) (filter (\<lambda>j. accessor (logs ! j) = a) [i + 1..<length logs])"
      proof (rule "1.IH"(1) [OF True hit])
        show "length ?res \<le> c + 1 + length (filter (\<lambda>j. accessor (logs ! j) = a) [i + 1..<length logs])"
          using "1.prems"(2) True hit by (simp add: accessor_filter_upt)
      qed (use True in simp)
      also have "take (c + 1) ?res = take c res @ [i]"
        using True by (simp add: take_Suc_update)
      also have "(take c res @ [i])
                   @ take (length ?res - (c + 1)) (filter (\<lambda>j. accessor (logs ! j) = a) [i + 1..<length logs])
                 = take c res @ take (length res - c) (filter (\<lambda>j. accessor (logs ! j) = a) [i..<length logs])"
      proof -
        have "length res - c = Suc (length res - (c + 1))"
          using True by arith
        then show ?thesis
          using True hit by (simp add: accessor_filter_upt)
      qed
      finally show ?thesis .
    next
      case miss: False
      have "accessor_fill logs a i c res = accessor_fill logs a (i + 1) c res"
        using True miss by (subst accessor_fill.simps) simp
      also have "\<dots> = take c res
                   @ take (length res - c) (filter (\<lambda>j. accessor (logs ! j) = a) [i + 1..<length logs])"
      proof (rule "1.IH"(2) [OF True miss])
        show "length res \<le> c + length (filter (\<lambda>j. accessor (logs ! j) = a) [i + 1..<length logs])"
          using "1.prems"(2) True miss by (simp add: accessor_filter_upt)
      qed (use "1.prems" in simp)
      finally show ?thesis
        using True miss by (simp add: accessor_filter_upt)
    qed
  next
    case False
    then have "accessor_fill logs a i c res = res"
      by (subst accessor_fill.simps) auto
    moreover have "c = length res"
      using False "1.prems" by (cases "i < length logs") auto
    ultimately show ?thesis by simp
  qed
qed

lemma getAccessLogsByAccessor_char:
  "getAccessLogsByAccessor a m s
     = take (unat m) (filter (\<lambda>j. accessor (accessLogs s ! j) = a) [0..<length (accessLogs s)])"
proof -
  let ?hits = "filter (\<lambda>j. accessor (accessLogs s ! j) = a) [0..<length (accessLogs s)]"
  let ?n = "min (unat m) (length ?hits)"
  have cnt: "accessor_count (accessLogs s) a (unat m) 0 0 = ?n"
    using accessor_count_char [of 0 "unat m" "accessLogs s" a 0] by simp
  have "accessor_fill (accessLogs s) a 0 0 (replicate ?n 0)
          = take 0 (replicate ?n 0) @ take (length (replicate ?n (0::nat)) - 0) ?hits"
    by (rule accessor_fill_char) simp_all
  then have "accessor_fill (accessLogs s) a 0 0 (replicate ?n 0) = take (unat m) ?hits"
    by (simp add: min_def)
  with cnt show ?thesis
    by (simp add: getAccessLogsByAccessor_def Let_def)
qed

subsection \<open>The audit scenario and the order of results\<close>

lemma logAccess_ok:
  "p \<noteq> 0 \<Longrightarrow> a \<noteq> 0 \<Longrightarrow> r \<noteq> [] \<Longrightarrow> t \<noteq> [] \<Longrightarrow>
   logAccess p a r t ts s = Inr (commit s (logAccess p a r t ts s), [AccessLogged p a r t ts])"
  by (simp add: logAccess_def Let_def commit_simps)

lemma audit_reachable_commit:
  assumes "audit_reachable s" and "p \<noteq> 0" and "a \<noteq> 0" and "r \<noteq> []" and "t \<noteq> []"
  shows "audit_reachable (commit s (logAccess p a r t ts s))"
  using assms(1) logAccess_ok [OF assms(2-5), of ts s]
  unfolding audit_reachable_def by (rule ar_log)

lemma audit_init_reachable: "audit_reachable AuditContract_init"
  unfolding audit_reachable_def by (rule ar_refl)

lemma audit_scenario_reachable: "audit_reachable audit_scenario"
  unfolding audit_scenario_def
  by (intro audit_reachable_commit audit_init_reachable) simp_all

lemma audit_scenario_logs:
  "accessLogs audit_scenario
   = [\<lparr>patient = 1, accessor = 2, resourceId = ''rec-1'', accessType = ''view'',
        AccessLog.timestamp = 100\<rparr>,
      \<lparr>patient = 3, accessor = 2, resourceId = ''rec-9'', accessType = ''view'',
        AccessLog.timestamp = 150\<rparr>,
      \<lparr>patient = 1, accessor = 4, resourceId = ''rec-1'', accessType = ''download'',
        AccessLog.timestamp = 200\<rparr>]"
  by (simp add: audit_scenario_def logAccess_def Let_def commit_simps AuditContract_init_def)

lemma audit_scenario_index:
  "patientAccessLogs audit_scenario 1 = [0, 2]"
  "patientAccessLogs audit_scenario 3 = [1]"
  "patientAccessLogs audit_scenario 2 = []"
  by (simp_all add: audit_scenario_def logAccess_def Let_def commit_simps AuditContract_init_def)

lemma subseq_take_filter: "subseq (take n (filter P xs)) xs"
proof -
  have "subseq (take n (filter P xs)) (filter P xs)"
    by (metis append_take_drop_id subseq_rev_drop_many subseq_order.order_refl)
  then show ?thesis
    using subseq_filter_left subseq_order.trans by blast
qed

subsection \<open>The two branches of storeDataHash and the invariant of the id lists\<close>

lemma datahash_scenario_store:
  "storeDataHash \<lparr>msg_sender = 1, block_timestamp = 100\<rparr> ''rec-1'' ''abc123'' ''lab_result'' 100
     DataHashContract_init
   = Inr (datahash_scenario, [DataHashStored ''rec-1'' ''abc123'' ''lab_result'' 100 1])"
  by (simp add: datahash_scenario_def storeDataHash_def commit_simps DataHashContract_init_def
      DataHashRecord_zero_def)

lemma datahash_scenario_reachable: "datahash_reachable datahash_scenario"
  by (rule dr_store [OF dr_init datahash_scenario_store])

lemma datahash_scenario_record:
  "dataHashes datahash_scenario ''rec-1''
   = \<lparr>dataHash = ''abc123'', DataHashRecord.timestamp = 100, dataType = ''lab_result'', owner = 1,
      DataHashRecord.exists = True\<rparr>"
  by (simp add: datahash_scenario_def storeDataHash_def commit_simps DataHashContract_init_def
      DataHashRecord_zero_def)

lemma datahash_scenario_ids: "ownerDataIds datahash_scenario = (\<lambda>_. [])(1 := [''rec-1''])"
  by (simp add: datahash_scenario_def storeDataHash_def commit_simps DataHashContract_init_def
      DataHashRecord_zero_def)

lemma storeDataHash_update:
  assumes "DataHashRecord.exists (dataHashes s dataId)"
    and "dataId \<noteq> []" and "h \<noteq> []" and "t \<noteq> []"
  shows "storeDataHash e dataId h t ts s
         = Inr (s\<lparr>dataHashes := (dataHashes s)(dataId :=
                    (dataHashes s dataId)\<lparr>dataHash := h, DataHashRecord.timestamp := ts,
                       dataType := t\<rparr>)\<rparr>,
                [DataHashUpdated dataId (dataHash (dataHashes s dataId)) h ts (msg_sender e)])"
  using assms by (simp add: storeDataHash_def Let_def)

lemma storeDataHash_create:
  assumes "\<not> DataHashRecord.exists (dataHashes s dataId)"
    and "dataId \<noteq> []" and "h \<noteq> []" and "t \<noteq> []"
  shows "storeDataHash e dataId h t ts s
         = Inr (s\<lparr>dataHashes := (dataHashes s)(dataId :=
                    \<lparr>dataHash = h, DataHashRecord.timestamp = ts, dataType = t,
                     owner = msg_sender e, DataHashRecord.exists = True\<rparr>),
                  ownerDataIds := (ownerDataIds s)(msg_sender e :=
                    ownerDataIds s (msg_sender e) @ [dataId])\<rparr>,
                [DataHashStored dataId h t ts (msg_sender e)])"
  using assms by (simp add: storeDataHash_def Let_def)

lemma storeDataHash_nonempty:
  assumes "storeDataHash e dataId h t ts s = Inr (s', evs)"
  shows "dataId \<noteq> []" and "h \<noteq> []" and "t \<noteq> []"
  using assms by (auto simp: storeDataHash_def split: if_splits)

lemma datahash_inv:
  "datahash_reachable s \<Longrightarrow>
   distinct (ownerDataIds s ow)
   \<and> (\<forall>i. i \<in> set (ownerDataIds s ow)
          \<longleftrightarrow> DataHashRecord.exists (dataHashes s i) \<and> owner (dataHashes s i) = ow)"
proof (induction arbitrary: ow rule: datahash_reachable.induct)
  case dr_init
  show ?case
    by (simp add: DataHashContract_init_def DataHashRecord_zero_def)
next
  case (dr_store s e dataId h t ts s' evs)
  note ne = storeDataHash_nonempty [OF dr_store.hyps(2)]
  show ?case
  proof (cases "DataHashRecord.exists (dataHashes s dataId)")
    case True
    from dr_store.hyps(2) storeDataHash_update [OF True ne, of e ts]
    have s': "s' = s\<lparr>dataHashes := (dataHashes s)(dataId :=
                    (dataHashes s dataId)\<lparr>dataHash := h, DataHashRecord.timestamp := ts,
                       dataType := t\<rparr>)\<rparr>"
      by simp
    show ?thesis
      using dr_store.IH [of ow] True by (auto simp: s')
  next
    case False
    from dr_store.hyps(2) storeDataHash_create [OF False ne, of e ts]
    have s': "s' = s\<lparr>dataHashes := (dataHashes s)(dataId :=
                    \<lparr>dataHash = h, DataHashRecord.timestamp = ts, dataType = t,
                     owner = msg_sender e, DataHashRecord.exists = True\<rparr>),
                  ownerDataIds := (ownerDataIds s)(msg_sender e :=
                    ownerDataIds s (msg_sender e) @ [dataId])\<rparr>"
      by simp
    have fresh: "dataId \<notin> set (ownerDataIds s ow')" for ow'
      using dr_store.IH [of ow'] False by simp
    show ?thesis
      using dr_store.IH [of ow] False fresh by (auto simp: s')
  qed
qed

section \<open>The claims on ConsentContract\<close>

text \<open>
  Claim C3. \<open>grantConsent\<close> fails exactly when the provider is the zero address, or the
  end date is not after the start date, or the end date is not after the block time, each
  with its own \<^verbatim>\<open>require\<close> message. A failed call leaves the storage as it was. In
  particular, with an end date before the block time the call fails and the slot of the
  pair is what it was before: a pair without a record has none afterwards.
\<close>

theorem grantConsent_rejection:
  "(failed (grantConsent e provider al sd ed pu s)
      \<longleftrightarrow> provider = 0 \<or> ed \<le> sd \<or> ed \<le> block_timestamp e)
   \<and> (provider = 0
      \<longrightarrow> grantConsent e provider al sd ed pu s = Inl (Revert ''Invalid provider address''))
   \<and> (provider \<noteq> 0 \<and> ed \<le> sd
      \<longrightarrow> grantConsent e provider al sd ed pu s = Inl (Revert ''End date must be after start date''))
   \<and> (provider \<noteq> 0 \<and> sd < ed \<and> ed \<le> block_timestamp e
      \<longrightarrow> grantConsent e provider al sd ed pu s = Inl (Revert ''End date must be in the future''))
   \<and> (failed (grantConsent e provider al sd ed pu s)
      \<longrightarrow> commit s (grantConsent e provider al sd ed pu s) = s)
   \<and> (ed < block_timestamp e
      \<longrightarrow> failed (grantConsent e provider al sd ed pu s)
        \<and> consents (commit s (grantConsent e provider al sd ed pu s)) (msg_sender e) provider
            = consents s (msg_sender e) provider
        \<and> (\<not> Consent.exists (consents s (msg_sender e) provider)
           \<longrightarrow> \<not> Consent.exists
                 (consents (commit s (grantConsent e provider al sd ed pu s)) (msg_sender e) provider)))"
  by (auto simp: grantConsent_def failed_simps commit_simps)

theorem grantConsent_rejection_witness:
  "(50 :: uint256) < 200
   \<and> failed (grantConsent \<lparr>msg_sender = 1, block_timestamp = 200\<rparr> 2 ''full'' 10 50 ''checkup''
        ConsentContract_init)
   \<and> commit ConsentContract_init
        (grantConsent \<lparr>msg_sender = 1, block_timestamp = 200\<rparr> 2 ''full'' 10 50 ''checkup''
           ConsentContract_init) = ConsentContract_init
   \<and> \<not> Consent.exists (consents ConsentContract_init 1 2)
   \<and> \<not> Consent.exists (consents (commit ConsentContract_init
        (grantConsent \<lparr>msg_sender = 1, block_timestamp = 200\<rparr> 2 ''full'' 10 50 ''checkup''
           ConsentContract_init)) 1 2)
   \<and> grantConsent \<lparr>msg_sender = 1, block_timestamp = 10\<rparr> 0 ''full'' 10 40 ''checkup''
        ConsentContract_init = Inl (Revert ''Invalid provider address'')
   \<and> (40 :: uint256) \<le> 40
   \<and> grantConsent \<lparr>msg_sender = 1, block_timestamp = 10\<rparr> 2 ''full'' 40 40 ''checkup''
        ConsentContract_init = Inl (Revert ''End date must be after start date'')
   \<and> (10 :: uint256) < 40 \<and> (40 :: uint256) \<le> 40
   \<and> grantConsent \<lparr>msg_sender = 1, block_timestamp = 40\<rparr> 2 ''full'' 10 40 ''checkup''
        ConsentContract_init = Inl (Revert ''End date must be in the future'')
   \<and> failed (grantConsent \<lparr>msg_sender = 1, block_timestamp = 10\<rparr> 2 ''full'' 10 40 ''checkup''
        ConsentContract_init) = False"
proof -
  have lt: "(50 :: uint256) < 200"
    by simp
  have absent: "\<not> Consent.exists (consents ConsentContract_init 1 2)"
    by (simp add: ConsentContract_init_def Consent_zero_def)
  from lt absent
    grantConsent_rejection [of "\<lparr>msg_sender = 1, block_timestamp = 200\<rparr>" 2 "''full''" 10 50
      "''checkup''" ConsentContract_init]
    grantConsent_rejection [of "\<lparr>msg_sender = 1, block_timestamp = 10\<rparr>" 0 "''full''" 10 40
      "''checkup''" ConsentContract_init]
    grantConsent_rejection [of "\<lparr>msg_sender = 1, block_timestamp = 10\<rparr>" 2 "''full''" 40 40
      "''checkup''" ConsentContract_init]
    grantConsent_rejection [of "\<lparr>msg_sender = 1, block_timestamp = 40\<rparr>" 2 "''full''" 10 40
      "''checkup''" ConsentContract_init]
    grantConsent_rejection [of "\<lparr>msg_sender = 1, block_timestamp = 10\<rparr>" 2 "''full''" 10 40
      "''checkup''" ConsentContract_init]
  show ?thesis
    by (simp add: failed_simps commit_simps)
qed

text \<open>
  Claim C4. \<open>checkConsent\<close> is a total function of the storage and the block time (it
  returns no error and no storage). Its first component is true exactly when a record
  exists for the pair and the block time lies in \<open>[startDate, endDate]\<close>; in every
  reachable storage, a pair without a record yields \<open>False\<close> with empty strings and
  zero dates.
\<close>

theorem checkConsent_valid_window:
  "fst (checkConsent e patient' provider s)
     = (Consent.exists (consents s patient' provider)
        \<and> startDate (consents s patient' provider) \<le> block_timestamp e
        \<and> block_timestamp e \<le> endDate (consents s patient' provider))
   \<and> (consent_reachable s \<and> Consent.exists (consents s patient' provider) = False
      \<longrightarrow> checkConsent e patient' provider s = (False, [], 0, 0, []))"
proof -
  have "checkConsent e patient' provider s = (False, [], 0, 0, [])"
    if "consent_reachable s" and "\<not> Consent.exists (consents s patient' provider)"
    using consent_unset_is_zero [OF that] by (simp add: checkConsent_def Let_def Consent_zero_def)
  then show ?thesis
    by (auto simp: checkConsent_def Let_def)
qed

theorem checkConsent_valid_window_witness:
  "consent_reachable ConsentContract_init
   \<and> Consent.exists (consents ConsentContract_init 1 2) = False
   \<and> checkConsent \<lparr>msg_sender = 3, block_timestamp = 11\<rparr> 1 2 ConsentContract_init
       = (False, [], 0, 0, [])
   \<and> fst (checkConsent \<lparr>msg_sender = 3, block_timestamp = 11\<rparr> 1 2 consent_scenario)
   \<and> fst (checkConsent \<lparr>msg_sender = 3, block_timestamp = 41\<rparr> 1 2 consent_scenario) = False"
proof -
  have absent: "Consent.exists (consents ConsentContract_init 1 2) = False"
    by (simp add: ConsentContract_init_def Consent_zero_def)
  from absent cr_init consent_scenario_record
    checkConsent_valid_window [of "\<lparr>msg_sender = 3, block_timestamp = 11\<rparr>" 1 2
      ConsentContract_init]
    checkConsent_valid_window [of "\<lparr>msg_sender = 3, block_timestamp = 11\<rparr>" 1 2
      consent_scenario]
    checkConsent_valid_window [of "\<lparr>msg_sender = 3, block_timestamp = 41\<rparr>" 1 2
      consent_scenario]
  show ?thesis
    by simp
qed

text \<open>
  Claim C7. \<open>revokeConsent\<close> fails exactly when the provider is the zero address or the
  caller has no record for the provider, and a failed call leaves the storage as it was. A
  successful call emits \<open>ConsentRevoked\<close>, resets the slot of the pair to the zero
  value and touches no other pair, so \<open>checkConsent\<close> then returns \<open>False\<close>
  with empty fields, at any block time.
\<close>

theorem revokeConsent_absent_or_null:
  "(failed (revokeConsent e provider s)
      \<longleftrightarrow> provider = 0 \<or> Consent.exists (consents s (msg_sender e) provider) = False)
   \<and> (provider = 0
      \<longrightarrow> revokeConsent e provider s = Inl (Revert ''Invalid provider address''))
   \<and> (provider \<noteq> 0 \<and> Consent.exists (consents s (msg_sender e) provider) = False
      \<longrightarrow> revokeConsent e provider s = Inl (Revert ''Consent does not exist''))
   \<and> (failed (revokeConsent e provider s) \<longrightarrow> commit s (revokeConsent e provider s) = s)
   \<and> (failed (revokeConsent e provider s) = False
      \<longrightarrow> revokeConsent e provider s
            = Inr (commit s (revokeConsent e provider s), [ConsentRevoked (msg_sender e) provider])
        \<and> consents (commit s (revokeConsent e provider s)) (msg_sender e) provider = Consent_zero
        \<and> checkConsent e' (msg_sender e) provider (commit s (revokeConsent e provider s))
            = (False, [], 0, 0, [])
        \<and> (\<forall>p q. (p, q) \<noteq> (msg_sender e, provider)
             \<longrightarrow> consents (commit s (revokeConsent e provider s)) p q = consents s p q))"
  by (auto simp: revokeConsent_def failed_simps commit_simps checkConsent_def Let_def Consent_zero_def)

theorem revokeConsent_absent_or_null_witness:
  "failed (revokeConsent \<lparr>msg_sender = 1, block_timestamp = 41\<rparr> 2 ConsentContract_init)
   \<and> commit ConsentContract_init
        (revokeConsent \<lparr>msg_sender = 1, block_timestamp = 41\<rparr> 2 ConsentContract_init)
       = ConsentContract_init
   \<and> failed (revokeConsent \<lparr>msg_sender = 1, block_timestamp = 41\<rparr> 2 consent_scenario) = False
   \<and> checkConsent \<lparr>msg_sender = 3, block_timestamp = 41\<rparr> 1 2
        (commit consent_scenario
           (revokeConsent \<lparr>msg_sender = 1, block_timestamp = 41\<rparr> 2 consent_scenario))
       = (False, [], 0, 0, [])"
proof -
  have absent: "Consent.exists (consents ConsentContract_init 1 2) = False"
    by (simp add: ConsentContract_init_def Consent_zero_def)
  have present: "Consent.exists (consents consent_scenario 1 2)"
    by (simp add: consent_scenario_record)
  from absent present
    revokeConsent_absent_or_null [of "\<lparr>msg_sender = 1, block_timestamp = 41\<rparr>" 2
      ConsentContract_init "\<lparr>msg_sender = 3, block_timestamp = 41\<rparr>"]
    revokeConsent_absent_or_null [of "\<lparr>msg_sender = 1, block_timestamp = 41\<rparr>" 2
      consent_scenario "\<lparr>msg_sender = 3, block_timestamp = 41\<rparr>"]
  show ?thesis
    by (simp add: failed_simps commit_simps)
qed

text \<open>
  Claim C8. For every pair of addresses, every storage and every block time,
  \<open>hasValidConsent\<close> returns exactly the first component (the validity flag) of
  \<open>checkConsent\<close>.
\<close>

theorem hasValidConsent_is_checkConsent_valid:
  "hasValidConsent e patient' provider s = fst (checkConsent e patient' provider s)"
  by (simp add: hasValidConsent_def checkConsent_def Let_def)

text \<open>
  Claim C9. In a reachable storage, when a record exists for the pair and the block time
  lies outside \<open>[startDate, endDate]\<close>, \<open>checkConsent\<close> returns \<open>False\<close>
  together with the stored access level, dates and purpose. The stored end date is never
  zero, so the answer differs from the one for a pair without a record.
\<close>

theorem checkConsent_expired_keeps_fields:
  assumes "consent_reachable s"
    and "Consent.exists (consents s patient' provider)"
    and "block_timestamp e < startDate (consents s patient' provider)
         \<or> endDate (consents s patient' provider) < block_timestamp e"
  shows "checkConsent e patient' provider s
           = (False, accessLevel (consents s patient' provider),
              startDate (consents s patient' provider), endDate (consents s patient' provider),
              purpose (consents s patient' provider))
         \<and> endDate (consents s patient' provider) \<noteq> 0
         \<and> checkConsent e patient' provider s \<noteq> (False, [], 0, 0, [])"
proof -
  have "startDate (consents s patient' provider) < endDate (consents s patient' provider)"
    using assms(1,2) by (rule consent_window_nonempty)
  then have nz: "endDate (consents s patient' provider) \<noteq> 0"
    by (metis word_not_simps(1))
  have "checkConsent e patient' provider s
           = (False, accessLevel (consents s patient' provider),
              startDate (consents s patient' provider), endDate (consents s patient' provider),
              purpose (consents s patient' provider))"
    using assms(3) by (auto simp: checkConsent_def Let_def)
  with nz show ?thesis by simp
qed

theorem checkConsent_expired_keeps_fields_witness:
  "consent_reachable consent_scenario
   \<and> Consent.exists (consents consent_scenario 1 2)
   \<and> endDate (consents consent_scenario 1 2) < 41
   \<and> checkConsent \<lparr>msg_sender = 3, block_timestamp = 41\<rparr> 1 2 consent_scenario
       = (False, ''full'', 10, 40, ''checkup'')"
proof -
  have present: "Consent.exists (consents consent_scenario 1 2)"
    by (simp add: consent_scenario_record)
  have late: "block_timestamp \<lparr>msg_sender = 3, block_timestamp = 41\<rparr>
                < startDate (consents consent_scenario 1 2)
              \<or> endDate (consents consent_scenario 1 2)
                < block_timestamp \<lparr>msg_sender = 3, block_timestamp = 41\<rparr>"
    by (simp add: consent_scenario_record)
  from checkConsent_expired_keeps_fields [OF consent_scenario_reachable present late]
  show ?thesis
    using consent_scenario_reachable by (simp add: consent_scenario_record)
qed

section \<open>The claims on DataHashContract\<close>

text \<open>
  Claim C1, as the specification states it, fails: the update branch also overwrites the
  stored timestamp. In the scenario the record of \<^verbatim>\<open>rec-1\<close> exists with timestamp 100;
  after an update called with timestamp 200 the stored timestamp is 200.
\<close>

theorem storeDataHash_update_keeps_creation_metadata_counterexample:
  "DataHashRecord.exists (dataHashes datahash_scenario ''rec-1'')
   \<and> DataHashRecord.timestamp (dataHashes datahash_scenario ''rec-1'') = 100
   \<and> DataHashRecord.timestamp
        (dataHashes
           (commit datahash_scenario
              (storeDataHash \<lparr>msg_sender = 1, block_timestamp = 200\<rparr> ''rec-1'' ''def456''
                 ''lab_result'' 200 datahash_scenario))
           ''rec-1'') = 200
   \<and> DataHashRecord.timestamp
        (dataHashes
           (commit datahash_scenario
              (storeDataHash \<lparr>msg_sender = 1, block_timestamp = 200\<rparr> ''rec-1'' ''def456''
                 ''lab_result'' 200 datahash_scenario))
           ''rec-1'')
       \<noteq> DataHashRecord.timestamp (dataHashes datahash_scenario ''rec-1'')"
  by (simp add: storeDataHash_def Let_def commit_simps datahash_scenario_record)

text \<open>
  Claim C1, amended. For a \<open>dataId\<close> whose record exists and non-empty arguments,
  \<open>storeDataHash\<close> succeeds and emits one \<open>DataHashUpdated\<close> event carrying the id,
  the old digest, the new digest, the new timestamp and the caller. It replaces the stored
  digest, data type and timestamp, keeps the owner and the \<open>exists\<close> flag of the record,
  and changes no other record and no owner's id list.
\<close>

theorem storeDataHash_update_existing:
  assumes "DataHashRecord.exists (dataHashes s dataId)"
    and "dataId \<noteq> []" and "h \<noteq> []" and "t \<noteq> []"
  shows "storeDataHash e dataId h t ts s
           = Inr (commit s (storeDataHash e dataId h t ts s),
                  [DataHashUpdated dataId (dataHash (dataHashes s dataId)) h ts (msg_sender e)])
         \<and> dataHashes (commit s (storeDataHash e dataId h t ts s)) dataId
           = \<lparr>dataHash = h, DataHashRecord.timestamp = ts, dataType = t,
              owner = owner (dataHashes s dataId), DataHashRecord.exists = True\<rparr>
         \<and> (\<forall>i. i \<noteq> dataId
              \<longrightarrow> dataHashes (commit s (storeDataHash e dataId h t ts s)) i = dataHashes s i)
         \<and> ownerDataIds (commit s (storeDataHash e dataId h t ts s)) = ownerDataIds s"
  using assms by (simp add: storeDataHash_update commit_simps)

theorem storeDataHash_update_existing_witness:
  "DataHashRecord.exists (dataHashes datahash_scenario ''rec-1'')
   \<and> storeDataHash \<lparr>msg_sender = 2, block_timestamp = 200\<rparr> ''rec-1'' ''def456'' ''scan'' 200
        datahash_scenario
       = Inr (commit datahash_scenario
                (storeDataHash \<lparr>msg_sender = 2, block_timestamp = 200\<rparr> ''rec-1'' ''def456''
                   ''scan'' 200 datahash_scenario),
              [DataHashUpdated ''rec-1'' ''abc123'' ''def456'' 200 2])
   \<and> dataHashes
        (commit datahash_scenario
           (storeDataHash \<lparr>msg_sender = 2, block_timestamp = 200\<rparr> ''rec-1'' ''def456''
              ''scan'' 200 datahash_scenario))
        ''rec-1''
       = \<lparr>dataHash = ''def456'', DataHashRecord.timestamp = 200, dataType = ''scan'', owner = 1,
          DataHashRecord.exists = True\<rparr>"
proof -
  have present: "DataHashRecord.exists (dataHashes datahash_scenario ''rec-1'')"
    by (simp add: datahash_scenario_record)
  from storeDataHash_update_existing [OF present, of "''def456''" "''scan''"
      "\<lparr>msg_sender = 2, block_timestamp = 200\<rparr>" 200]
  show ?thesis
    using present by (simp add: datahash_scenario_record)
qed

text \<open>
  Claim C6. \<open>verifyDataHash\<close> is a total function of the storage (it returns no error
  and no storage). For an id without a record it returns \<open>False\<close> with empty fields. For
  an id with a record it returns the stored digest, timestamp and type, and \<open>isValid\<close> is
  the equality of the \<open>keccak256\<close> values of the stored and the candidate digest: true
  whenever the two strings are equal, and equal to string equality whenever \<open>keccak256\<close>
  does not collide on the two strings. After a successful update, the new digest verifies,
  and the old digest does not verify unless its \<open>keccak256\<close> value collides with the new
  one's.
\<close>

theorem verifyDataHash_compares_digests:
  "(DataHashRecord.exists (dataHashes s dataId) = False
      \<longrightarrow> verifyDataHash keccak256 dataId candidate s = (False, [], 0, []))
   \<and> (DataHashRecord.exists (dataHashes s dataId)
      \<longrightarrow> verifyDataHash keccak256 dataId candidate s
            = (keccak256 (dataHash (dataHashes s dataId)) = keccak256 candidate,
               dataHash (dataHashes s dataId), DataHashRecord.timestamp (dataHashes s dataId),
               dataType (dataHashes s dataId)))
   \<and> (DataHashRecord.exists (dataHashes s dataId) \<and> candidate = dataHash (dataHashes s dataId)
      \<longrightarrow> fst (verifyDataHash keccak256 dataId candidate s))
   \<and> (DataHashRecord.exists (dataHashes s dataId)
        \<and> (keccak256 (dataHash (dataHashes s dataId)) = keccak256 candidate
             \<longrightarrow> dataHash (dataHashes s dataId) = candidate)
      \<longrightarrow> fst (verifyDataHash keccak256 dataId candidate s)
            = (candidate = dataHash (dataHashes s dataId)))
   \<and> (DataHashRecord.exists (dataHashes s dataId)
        \<and> storeDataHash e dataId newHash t ts s = Inr (s', evs)
      \<longrightarrow> fst (verifyDataHash keccak256 dataId newHash s')
          \<and> (keccak256 (dataHash (dataHashes s dataId)) \<noteq> keccak256 newHash
             \<longrightarrow> fst (verifyDataHash keccak256 dataId (dataHash (dataHashes s dataId)) s') = False))"
proof -
  have upd: "fst (verifyDataHash keccak256 dataId newHash s')
             \<and> (keccak256 (dataHash (dataHashes s dataId)) \<noteq> keccak256 newHash
                \<longrightarrow> fst (verifyDataHash keccak256 dataId (dataHash (dataHashes s dataId)) s') = False)"
    if ex: "DataHashRecord.exists (dataHashes s dataId)"
      and st: "storeDataHash e dataId newHash t ts s = Inr (s', evs)"
  proof -
    note ne = storeDataHash_nonempty [OF st]
    from st storeDataHash_update [OF ex ne, of e ts]
    have "s' = s\<lparr>dataHashes := (dataHashes s)(dataId :=
                    (dataHashes s dataId)\<lparr>dataHash := newHash, DataHashRecord.timestamp := ts,
                       dataType := t\<rparr>)\<rparr>"
      by simp
    with ex show ?thesis
      by (auto simp: verifyDataHash_def Let_def)
  qed
  have rest: "(DataHashRecord.exists (dataHashes s dataId) = False
      \<longrightarrow> verifyDataHash keccak256 dataId candidate s = (False, [], 0, []))
   \<and> (DataHashRecord.exists (dataHashes s dataId)
      \<longrightarrow> verifyDataHash keccak256 dataId candidate s
            = (keccak256 (dataHash (dataHashes s dataId)) = keccak256 candidate,
               dataHash (dataHashes s dataId), DataHashRecord.timestamp (dataHashes s dataId),
               dataType (dataHashes s dataId)))"
    by (simp add: verifyDataHash_def Let_def)
  from rest upd show ?thesis
    by auto
qed

theorem verifyDataHash_compares_digests_witness:
  "DataHashRecord.exists (dataHashes DataHashContract_init ''unknown-id'') = False
   \<and> verifyDataHash positional_digest ''unknown-id'' ''abc123'' DataHashContract_init
       = (False, [], 0, [])
   \<and> DataHashRecord.exists (dataHashes datahash_scenario ''rec-1'')
   \<and> verifyDataHash positional_digest ''rec-1'' ''abc123'' datahash_scenario
       = (True, ''abc123'', 100, ''lab_result'')
   \<and> positional_digest ''abc123'' \<noteq> positional_digest ''zzz''
   \<and> fst (verifyDataHash positional_digest ''rec-1'' ''zzz'' datahash_scenario) = False
   \<and> storeDataHash \<lparr>msg_sender = 1, block_timestamp = 200\<rparr> ''rec-1'' ''def456'' ''lab_result''
        200 datahash_scenario
       = Inr (commit datahash_scenario
                (storeDataHash \<lparr>msg_sender = 1, block_timestamp = 200\<rparr> ''rec-1'' ''def456''
                   ''lab_result'' 200 datahash_scenario),
              [DataHashUpdated ''rec-1'' ''abc123'' ''def456'' 200 1])
   \<and> positional_digest ''abc123'' \<noteq> positional_digest ''def456''
   \<and> fst (verifyDataHash positional_digest ''rec-1'' ''def456''
          (commit datahash_scenario
             (storeDataHash \<lparr>msg_sender = 1, block_timestamp = 200\<rparr> ''rec-1'' ''def456''
                ''lab_result'' 200 datahash_scenario)))
   \<and> fst (verifyDataHash positional_digest ''rec-1'' ''abc123''
          (commit datahash_scenario
             (storeDataHash \<lparr>msg_sender = 1, block_timestamp = 200\<rparr> ''rec-1'' ''def456''
                ''lab_result'' 200 datahash_scenario))) = False"
proof -
  let ?call = "storeDataHash \<lparr>msg_sender = 1, block_timestamp = 200\<rparr> ''rec-1'' ''def456''
                 ''lab_result'' 200 datahash_scenario"
  have absent: "DataHashRecord.exists (dataHashes DataHashContract_init ''unknown-id'') = False"
    by (simp add: DataHashContract_init_def DataHashRecord_zero_def)
  have present: "DataHashRecord.exists (dataHashes datahash_scenario ''rec-1'')"
    by (simp add: datahash_scenario_record)
  have apart: "positional_digest ''abc123'' \<noteq> positional_digest ''zzz''"
    and apart': "positional_digest ''abc123'' \<noteq> positional_digest ''def456''"
    by (simp_all add: positional_digest_def)
  have call: "?call = Inr (commit datahash_scenario ?call,
                [DataHashUpdated ''rec-1'' ''abc123'' ''def456'' 200 1])"
    using present by (simp add: storeDataHash_update commit_simps datahash_scenario_record)
  from absent present apart apart' call
    verifyDataHash_compares_digests [of DataHashContract_init "''unknown-id''" positional_digest
      "''abc123''"]
    verifyDataHash_compares_digests [of datahash_scenario "''rec-1''" positional_digest
      "''abc123''" "\<lparr>msg_sender = 1, block_timestamp = 200\<rparr>" "''def456''" "''lab_result''" 200
      "commit datahash_scenario ?call" "[DataHashUpdated ''rec-1'' ''abc123'' ''def456'' 200 1]"]
    verifyDataHash_compares_digests [of datahash_scenario "''rec-1''" positional_digest "''zzz''"]
  show ?thesis
    by (simp add: datahash_scenario_record)
qed

text \<open>
  Claim C10. In a reachable storage a successful \<open>storeDataHash\<close> on an id whose
  record exists changes no id list, so every owner's count is unchanged; on an id without a
  record it appends the id to the caller's list and changes no other list. Either way each
  owner's former list is a prefix of the new one, no list repeats an id, an id is in the
  list of an owner exactly when its record exists with that owner, and an existing record
  keeps its owner.
\<close>

theorem storeDataHash_pushes_id_once:
  assumes "datahash_reachable s" and "storeDataHash e dataId h t ts s = Inr (s', evs)"
  shows "(DataHashRecord.exists (dataHashes s dataId)
            \<longrightarrow> ownerDataIds s' = ownerDataIds s
              \<and> (\<forall>ow. getDataHashCount ow s' = getDataHashCount ow s))
         \<and> (DataHashRecord.exists (dataHashes s dataId) = False
            \<longrightarrow> ownerDataIds s' = (ownerDataIds s)(msg_sender e :=
                    ownerDataIds s (msg_sender e) @ [dataId]))
         \<and> (\<forall>ow. prefix (ownerDataIds s ow) (ownerDataIds s' ow))
         \<and> (\<forall>ow. distinct (ownerDataIds s' ow))
         \<and> (\<forall>ow i. i \<in> set (ownerDataIds s' ow)
               \<longleftrightarrow> DataHashRecord.exists (dataHashes s' i) \<and> owner (dataHashes s' i) = ow)
         \<and> (\<forall>i. DataHashRecord.exists (dataHashes s i)
               \<longrightarrow> DataHashRecord.exists (dataHashes s' i)
                 \<and> owner (dataHashes s' i) = owner (dataHashes s i))"
proof -
  note ne = storeDataHash_nonempty [OF assms(2)]
  have reach: "datahash_reachable s'"
    using assms by (rule dr_store)
  have inv: "(\<forall>ow. distinct (ownerDataIds s' ow))
         \<and> (\<forall>ow i. i \<in> set (ownerDataIds s' ow)
               \<longleftrightarrow> DataHashRecord.exists (dataHashes s' i) \<and> owner (dataHashes s' i) = ow)"
    using datahash_inv [OF reach] by blast
  show ?thesis
  proof (cases "DataHashRecord.exists (dataHashes s dataId)")
    case True
    from assms(2) storeDataHash_update [OF True ne, of e ts]
    have s': "s' = s\<lparr>dataHashes := (dataHashes s)(dataId :=
                    (dataHashes s dataId)\<lparr>dataHash := h, DataHashRecord.timestamp := ts,
                       dataType := t\<rparr>)\<rparr>"
      by simp
    have "ownerDataIds s' = ownerDataIds s"
      and "\<forall>ow. getDataHashCount ow s' = getDataHashCount ow s"
      and "\<forall>ow. prefix (ownerDataIds s ow) (ownerDataIds s' ow)"
      and "\<forall>i. DataHashRecord.exists (dataHashes s i)
               \<longrightarrow> DataHashRecord.exists (dataHashes s' i)
                 \<and> owner (dataHashes s' i) = owner (dataHashes s i)"
      by (simp_all add: s' getDataHashCount_def)
    with True inv show ?thesis
      by simp
  next
    case False
    from assms(2) storeDataHash_create [OF False ne, of e ts]
    have s': "s' = s\<lparr>dataHashes := (dataHashes s)(dataId :=
                    \<lparr>dataHash = h, DataHashRecord.timestamp = ts, dataType = t,
                     owner = msg_sender e, DataHashRecord.exists = True\<rparr>),
                  ownerDataIds := (ownerDataIds s)(msg_sender e :=
                    ownerDataIds s (msg_sender e) @ [dataId])\<rparr>"
      by simp
    have "ownerDataIds s' = (ownerDataIds s)(msg_sender e := ownerDataIds s (msg_sender e) @ [dataId])"
      and "\<forall>ow. prefix (ownerDataIds s ow) (ownerDataIds s' ow)"
      and "\<forall>i. DataHashRecord.exists (dataHashes s i)
               \<longrightarrow> DataHashRecord.exists (dataHashes s' i)
                 \<and> owner (dataHashes s' i) = owner (dataHashes s i)"
      using False by (auto simp: s')
    with False inv show ?thesis
      by simp
  qed
qed

theorem storeDataHash_pushes_id_once_witness:
  "datahash_reachable datahash_scenario
   \<and> DataHashRecord.exists (dataHashes datahash_scenario ''rec-1'')
   \<and> storeDataHash \<lparr>msg_sender = 2, block_timestamp = 200\<rparr> ''rec-1'' ''def456'' ''scan'' 200
        datahash_scenario
       = Inr (commit datahash_scenario
                (storeDataHash \<lparr>msg_sender = 2, block_timestamp = 200\<rparr> ''rec-1'' ''def456''
                   ''scan'' 200 datahash_scenario),
              [DataHashUpdated ''rec-1'' ''abc123'' ''def456'' 200 2])
   \<and> getDataHashCount 1 datahash_scenario = 1
   \<and> getDataHashCount 1
        (commit datahash_scenario
           (storeDataHash \<lparr>msg_sender = 2, block_timestamp = 200\<rparr> ''rec-1'' ''def456''
              ''scan'' 200 datahash_scenario)) = 1
   \<and> getDataHashCount 2
        (commit datahash_scenario
           (storeDataHash \<lparr>msg_sender = 2, block_timestamp = 200\<rparr> ''rec-1'' ''def456''
              ''scan'' 200 datahash_scenario)) = 0
   \<and> DataHashRecord.exists (dataHashes datahash_scenario ''rec-2'') = False
   \<and> storeDataHash \<lparr>msg_sender = 1, block_timestamp = 200\<rparr> ''rec-2'' ''0a1b2c'' ''scan'' 200
        datahash_scenario
       = Inr (commit datahash_scenario
                (storeDataHash \<lparr>msg_sender = 1, block_timestamp = 200\<rparr> ''rec-2'' ''0a1b2c''
                   ''scan'' 200 datahash_scenario),
              [DataHashStored ''rec-2'' ''0a1b2c'' ''scan'' 200 1])
   \<and> ownerDataIds
        (commit datahash_scenario
           (storeDataHash \<lparr>msg_sender = 1, block_timestamp = 200\<rparr> ''rec-2'' ''0a1b2c''
              ''scan'' 200 datahash_scenario)) 1 = [''rec-1'', ''rec-2'']"
proof -
  let ?update = "storeDataHash \<lparr>msg_sender = 2, block_timestamp = 200\<rparr> ''rec-1'' ''def456''
                 ''scan'' 200 datahash_scenario"
  let ?create = "storeDataHash \<lparr>msg_sender = 1, block_timestamp = 200\<rparr> ''rec-2'' ''0a1b2c''
                 ''scan'' 200 datahash_scenario"
  have present: "DataHashRecord.exists (dataHashes datahash_scenario ''rec-1'')"
    by (simp add: datahash_scenario_record)
  have absent: "DataHashRecord.exists (dataHashes datahash_scenario ''rec-2'') = False"
    by (simp add: datahash_scenario_def storeDataHash_def commit_simps DataHashContract_init_def
        DataHashRecord_zero_def)
  have update: "?update = Inr (commit datahash_scenario ?update,
                [DataHashUpdated ''rec-1'' ''abc123'' ''def456'' 200 2])"
    using present by (simp add: storeDataHash_update commit_simps datahash_scenario_record)
  have create: "?create = Inr (commit datahash_scenario ?create,
                [DataHashStored ''rec-2'' ''0a1b2c'' ''scan'' 200 1])"
    using absent by (simp add: storeDataHash_create commit_simps)
  have before: "getDataHashCount 1 datahash_scenario = 1"
    and before2: "getDataHashCount 2 datahash_scenario = 0"
    by (simp_all add: getDataHashCount_def datahash_scenario_ids)
  from storeDataHash_pushes_id_once [OF datahash_scenario_reachable update]
    storeDataHash_pushes_id_once [OF datahash_scenario_reachable create]
  show ?thesis
    using datahash_scenario_reachable update create present absent before before2
    by (simp add: datahash_scenario_ids)
qed

section \<open>The claims on AuditContract\<close>

text \<open>
  Claim C2, as the specification states it, fails: the contract keeps no index by
  accessor. Its storage is \<open>accessLogs\<close> and \<open>patientAccessLogs\<close>; a successful
  \<open>logAccess\<close> for patient 1 by accessor 2 writes the new log and position 0 under
  patient 1, and leaves nothing under the accessor's address.
\<close>

theorem logAccess_updates_accessor_index_counterexample:
  "logAccess 1 2 ''rec-1'' ''view'' 100 AuditContract_init
     = Inr (AuditContract_init
              \<lparr>accessLogs := [\<lparr>patient = 1, accessor = 2, resourceId = ''rec-1'',
                                accessType = ''view'', AccessLog.timestamp = 100\<rparr>],
               patientAccessLogs := (patientAccessLogs AuditContract_init)(1 := [0])\<rparr>,
            [AccessLogged 1 2 ''rec-1'' ''view'' 100])
   \<and> patientAccessLogs
        (commit AuditContract_init (logAccess 1 2 ''rec-1'' ''view'' 100 AuditContract_init)) 2
       = patientAccessLogs AuditContract_init 2
   \<and> patientAccessLogs
        (commit AuditContract_init (logAccess 1 2 ''rec-1'' ''view'' 100 AuditContract_init)) 2
       = []"
  by (simp add: logAccess_def Let_def commit_simps AuditContract_init_def)

text \<open>
  Claim C2, amended. In a reachable storage a successful \<open>logAccess\<close> appends exactly
  one log and emits \<open>AccessLogged\<close>; the patient's count grows by exactly 1; the new
  log's position, the former length of the array, is appended to the patient's index and
  is greater than every position indexed before; no other index entry changes. The logs
  already present stay where they are and as they are, after this call and after every
  later sequence of calls. No index by accessor is stored: \<open>getAccessLogsByAccessor\<close>
  computes the accessor's listing from the log array at each call, and the new position
  is among the accessor's matches.
\<close>

theorem logAccess_appends_one_entry:
  assumes "audit_reachable s" and "logAccess p a r t ts s = Inr (s', evs)"
  shows "accessLogs s' = accessLogs s @ [\<lparr>patient = p, accessor = a, resourceId = r,
                                           accessType = t, AccessLog.timestamp = ts\<rparr>]
    \<and> evs = [AccessLogged p a r t ts]
    \<and> getAccessLogCount p s' = getAccessLogCount p s + 1
    \<and> patientAccessLogs s' = (patientAccessLogs s)(p :=
         patientAccessLogs s p @ [length (accessLogs s)])
    \<and> (\<forall>q. \<forall>i \<in> set (patientAccessLogs s q). i < length (accessLogs s))
    \<and> (\<forall>i < length (accessLogs s). accessLogs s' ! i = accessLogs s ! i)
    \<and> (\<forall>s''. audit_reaches s' s'' \<longrightarrow> prefix (accessLogs s') (accessLogs s''))
    \<and> (\<forall>m. getAccessLogsByAccessor a m s'
          = take (unat m) (filter (\<lambda>j. accessor (accessLogs s' ! j) = a)
                             [0..<length (accessLogs s')]))
    \<and> length (accessLogs s) \<in> set (filter (\<lambda>j. accessor (accessLogs s' ! j) = a)
                                      [0..<length (accessLogs s')])"
proof -
  note st = logAccess_Inr [OF assms(2)]
  have logs: "accessLogs s' = accessLogs s @ [\<lparr>patient = p, accessor = a, resourceId = r,
                                           accessType = t, AccessLog.timestamp = ts\<rparr>]"
    and idx: "patientAccessLogs s' = (patientAccessLogs s)(p :=
         patientAccessLogs s p @ [length (accessLogs s)])"
    by (simp_all add: st(1))
  have cnt: "getAccessLogCount p s' = getAccessLogCount p s + 1"
    by (simp add: getAccessLogCount_def idx)
  have below: "\<forall>q. \<forall>i \<in> set (patientAccessLogs s q). i < length (accessLogs s)"
    using audit_reachable_valid(1) [OF assms(1)] by blast
  have kept: "\<forall>i < length (accessLogs s). accessLogs s' ! i = accessLogs s ! i"
    by (simp add: logs nth_append)
  have later: "\<forall>s''. audit_reaches s' s'' \<longrightarrow> prefix (accessLogs s') (accessLogs s'')"
    using audit_reaches_prefix by blast
  have scan: "\<forall>m. getAccessLogsByAccessor a m s'
          = take (unat m) (filter (\<lambda>j. accessor (accessLogs s' ! j) = a)
                             [0..<length (accessLogs s')])"
    by (simp add: getAccessLogsByAccessor_char)
  have new: "length (accessLogs s) \<in> set (filter (\<lambda>j. accessor (accessLogs s' ! j) = a)
                                      [0..<length (accessLogs s')])"
    by (simp add: logs)
  from logs st(2) cnt idx below kept later scan new show ?thesis
    by blast
qed

theorem logAccess_appends_one_entry_witness:
  "audit_reachable audit_scenario
   \<and> logAccess 1 2 ''rec-2'' ''view'' 300 audit_scenario
       = Inr (commit audit_scenario (logAccess 1 2 ''rec-2'' ''view'' 300 audit_scenario),
              [AccessLogged 1 2 ''rec-2'' ''view'' 300])
   \<and> getAccessLogCount 1 audit_scenario = 2
   \<and> getAccessLogCount 1
        (commit audit_scenario (logAccess 1 2 ''rec-2'' ''view'' 300 audit_scenario)) = 3
   \<and> patientAccessLogs
        (commit audit_scenario (logAccess 1 2 ''rec-2'' ''view'' 300 audit_scenario)) 1
       = [0, 2, 3]
   \<and> getAccessLogsByAccessor 2 5
        (commit audit_scenario (logAccess 1 2 ''rec-2'' ''view'' 300 audit_scenario))
       = [0, 1, 3]"
proof -
  let ?s' = "commit audit_scenario (logAccess 1 2 ''rec-2'' ''view'' 300 audit_scenario)"
  have call: "logAccess 1 2 ''rec-2'' ''view'' 300 audit_scenario
                = Inr (?s', [AccessLogged 1 2 ''rec-2'' ''view'' 300])"
    by (rule logAccess_ok) simp_all
  have before: "getAccessLogCount 1 audit_scenario = 2"
    by (simp add: getAccessLogCount_def audit_scenario_index)
  have upt4: "[0..<4] = [0, 1, 2, 3]"
    by (simp add: upt_rec)
  from logAccess_appends_one_entry [OF audit_scenario_reachable call]
  show ?thesis
    using audit_scenario_reachable call before
    by (simp add: audit_scenario_logs audit_scenario_index upt4)
qed

text \<open>
  Claim C5. In a reachable storage \<open>getAccessLogsInTimeRange\<close> fails exactly when
  \<open>endTime < startTime\<close>, with the \<^verbatim>\<open>require\<close> message. Otherwise its two loops
  return the first \<open>maxResults\<close> positions of the patient's index whose log has its
  timestamp in \<open>[startTime, endTime]\<close>, which is also what the single forward pass with
  early exit returns. Every result has at most \<open>maxResults\<close> positions, each one a
  position of a log of the patient with its timestamp in the range, in increasing order of
  position, and is a subsequence of the patient's index.
\<close>

theorem getAccessLogsInTimeRange_bounded_scan:
  assumes "audit_reachable s"
  shows "(failed (getAccessLogsInTimeRange p st et m s) \<longleftrightarrow> et < st)
    \<and> (et < st \<longrightarrow> getAccessLogsInTimeRange p st et m s
                     = Inl (Revert ''Start time must be before end time''))
    \<and> (st \<le> et \<longrightarrow>
         getAccessLogsInTimeRange p st et m s
           = Inr (take (unat m) (filter (in_range (accessLogs s) st et) (patientAccessLogs s p)))
         \<and> getAccessLogsInTimeRange p st et m s
           = Inr (single_pass (accessLogs s) st et (unat m) [] (patientAccessLogs s p)))
    \<and> (\<forall>res. getAccessLogsInTimeRange p st et m s = Inr res \<longrightarrow>
          length res \<le> unat m
          \<and> (\<forall>i \<in> set res. i < length (accessLogs s) \<and> patient (accessLogs s ! i) = p
                \<and> st \<le> AccessLog.timestamp (accessLogs s ! i)
                \<and> AccessLog.timestamp (accessLogs s ! i) \<le> et)
          \<and> sorted_wrt (<) res
          \<and> subseq res (patientAccessLogs s p))"
proof (cases "st \<le> et")
  case False
  then have "getAccessLogsInTimeRange p st et m s
               = Inl (Revert ''Start time must be before end time'')"
    by (simp add: getAccessLogsInTimeRange_def)
  with False show ?thesis
    by (simp add: failed_simps)
next
  case True
  let ?hits = "filter (in_range (accessLogs s) st et) (patientAccessLogs s p)"
  let ?res = "take (unat m) ?hits"
  have valid: "\<forall>x \<in> set (patientAccessLogs s p). x < length (accessLogs s)"
    using audit_reachable_valid(1) [OF assms] by blast
  have run: "getAccessLogsInTimeRange p st et m s = Inr ?res"
    using valid True by (rule getAccessLogsInTimeRange_char)
  have one: "single_pass (accessLogs s) st et (unat m) [] (patientAccessLogs s p) = ?res"
    by (simp add: single_pass_char)
  have len: "length ?res \<le> unat m"
    by simp
  have mem: "i < length (accessLogs s) \<and> patient (accessLogs s ! i) = p
               \<and> st \<le> AccessLog.timestamp (accessLogs s ! i)
               \<and> AccessLog.timestamp (accessLogs s ! i) \<le> et" if "i \<in> set ?res" for i
  proof -
    from that have "i \<in> set ?hits"
      by (rule in_set_takeD)
    then have "i \<in> set (patientAccessLogs s p)" and "in_range (accessLogs s) st et i"
      by simp_all
    then show ?thesis
      using audit_reachable_valid [OF assms] by (simp add: in_range_def)
  qed
  have srt: "sorted_wrt (<) ?res"
    by (intro sorted_wrt_take sorted_wrt_filter audit_reachable_sorted assms)
  have sub: "subseq ?res (patientAccessLogs s p)"
    by (rule subseq_take_filter)
  from True run one len mem srt sub show ?thesis
    by (simp add: failed_simps)
qed

theorem getAccessLogsInTimeRange_bounded_scan_witness:
  "audit_reachable audit_scenario
   \<and> (50 :: uint256) \<le> 250
   \<and> getAccessLogsInTimeRange 1 50 250 5 audit_scenario = Inr [0, 2]
   \<and> getAccessLogsInTimeRange 1 50 250 1 audit_scenario = Inr [0]
   \<and> getAccessLogsInTimeRange 1 150 250 5 audit_scenario = Inr [2]
   \<and> single_pass (accessLogs audit_scenario) 50 250 1 [] (patientAccessLogs audit_scenario 1) = [0]
   \<and> (250 :: uint256) < 300
   \<and> getAccessLogsInTimeRange 1 300 250 5 audit_scenario
       = Inl (Revert ''Start time must be before end time'')"
proof -
  note th = getAccessLogsInTimeRange_bounded_scan [OF audit_scenario_reachable]
  from th [of 1 50 250 5] th [of 1 50 250 1] th [of 1 150 250 5] th [of 1 300 250 5]
  show ?thesis
    using audit_scenario_reachable
    by (simp add: audit_scenario_logs audit_scenario_index in_range_def)
qed

end
